theory Spec2Isabelle
  imports Complex_Main "HOL-Library.Sublist" "HOL-Library.Char_ord"
begin

section \<open>SVG paths\<close>

text \<open>
  An \<open>SVGPath\<close> of the source is an array of segments, and a segment is an array
  whose entries are strings (the command letters) and numbers (the operands).
  JavaScript numbers are modelled by the reals; \<open>NaN\<close> is kept as an entry of
  its own, since \<open>parseFloat\<close> answers it for a token that is no number.
  Rounding, the infinities and the sign of zero are outside the model.
\<close>

datatype path_item = Num real | NaN | Str string

type_synonym segment = "path_item list"

type_synonym SVGPath = "segment list"

section \<open>The zoom button symbols (Map.ts, lines 369-419)\<close>

definition selectiveRoundedRect ::
  "real \<Rightarrow> real \<Rightarrow> real \<Rightarrow> real \<Rightarrow> real \<Rightarrow> real \<Rightarrow> real \<Rightarrow> real \<Rightarrow> SVGPath" where
  "selectiveRoundedRect x y w h rTopLeft rTopRight rBottomRight rBottomLeft =
    [ [Str ''M'', Num (x + rTopLeft), Num y],
      \<comment> \<open>top side\<close>
      [Str ''L'', Num (x + w - rTopRight), Num y],
      \<comment> \<open>top right corner\<close>
      [Str ''C'', Num (x + w - rTopRight / 2), Num y,
        Num (x + w), Num (y + rTopRight / 2), Num (x + w), Num (y + rTopRight)],
      \<comment> \<open>right side\<close>
      [Str ''L'', Num (x + w), Num (y + h - rBottomRight)],
      \<comment> \<open>bottom right corner\<close>
      [Str ''C'', Num (x + w), Num (y + h - rBottomRight / 2),
        Num (x + w - rBottomRight / 2), Num (y + h), Num (x + w - rBottomRight), Num (y + h)],
      \<comment> \<open>bottom side\<close>
      [Str ''L'', Num (x + rBottomLeft), Num (y + h)],
      \<comment> \<open>bottom left corner\<close>
      [Str ''C'', Num (x + rBottomLeft / 2), Num (y + h),
        Num x, Num (y + h - rBottomLeft / 2), Num x, Num (y + h - rBottomLeft)],
      \<comment> \<open>left side\<close>
      [Str ''L'', Num x, Num (y + rTopLeft)],
      \<comment> \<open>top left corner\<close>
      [Str ''C'', Num x, Num (y + rTopLeft / 2),
        Num (x + rTopLeft / 2), Num y, Num (x + rTopLeft), Num y],
      [Str ''Z''] ]"

text \<open>
  \<open>Highcharts.SymbolOptionsObject\<close>: only the optional radius \<open>r\<close> is read here;
  the other fields of the object are the record's extension.
\<close>

record SymbolOptionsObject =
  r :: "real option"

text \<open>
  \<open>(options && options.r) || 0\<close>: an absent options object or an absent \<open>r\<close> is
  \<open>undefined\<close>, and \<open>||\<close> replaces every falsy value (\<open>undefined\<close>, and the
  number zero) by \<open>0\<close>.
\<close>

definition button_radius :: "'a SymbolOptionsObject_scheme option \<Rightarrow> real" where
  "button_radius options =
    (case options of
       None \<Rightarrow> 0
     | Some opts \<Rightarrow> (case r opts of None \<Rightarrow> 0 | Some v \<Rightarrow> if v = 0 then 0 else v))"

definition topbutton ::
  "real \<Rightarrow> real \<Rightarrow> real \<Rightarrow> real \<Rightarrow> 'a SymbolOptionsObject_scheme option \<Rightarrow> SVGPath" where
  "topbutton x y w h options =
    (let r = button_radius options
     in selectiveRoundedRect (x - 1) (y - 1) w h r r 0 0)"

definition bottombutton ::
  "real \<Rightarrow> real \<Rightarrow> real \<Rightarrow> real \<Rightarrow> 'a SymbolOptionsObject_scheme option \<Rightarrow> SVGPath" where
  "bottombutton x y w h options =
    (let r = button_radius options
     in selectiveRoundedRect (x - 1) (y - 1) w h 0 0 r r)"

subsection \<open>Reading a path\<close>

text \<open>
  The command of a segment is its first entry; the point a segment draws to is given
  by its last two operands. The pen positions of a path are the points its segments
  draw to, in order; a segment without operands (\<open>Z\<close>) draws to no point of its own.
\<close>

fun command :: "segment \<Rightarrow> string option" where
  "command (Str c # _) = Some c"
| "command _ = None"

fun operands :: "segment \<Rightarrow> real list option" where
  "operands [] = Some []"
| "operands (Num v # rest) = map_option (\<lambda>vs. v # vs) (operands rest)"
| "operands _ = None"

fun last_point :: "real list \<Rightarrow> (real \<times> real) option" where
  "last_point [a, b] = Some (a, b)"
| "last_point (a # b # c # rest) = last_point (b # c # rest)"
| "last_point _ = None"

definition end_point :: "segment \<Rightarrow> (real \<times> real) option" where
  "end_point seg =
    (case seg of
       [] \<Rightarrow> None
     | _ # rest \<Rightarrow> (case operands rest of None \<Rightarrow> None | Some vs \<Rightarrow> last_point vs))"

text \<open>The control points of a cubic curve segment \<open>C x1 y1 x2 y2 x y\<close>.\<close>

fun curve_points :: "segment \<Rightarrow> ((real \<times> real) \<times> (real \<times> real) \<times> (real \<times> real)) option" where
  "curve_points [Str c, Num x1, Num y1, Num x2, Num y2, Num x, Num y] =
    (if c = ''C'' then Some ((x1, y1), (x2, y2), (x, y)) else None)"
| "curve_points _ = None"




definition is_curve :: "segment \<Rightarrow> bool" where
  "is_curve seg = (command seg = Some ''C'')"



section \<open>JavaScript values and option objects\<close>

text \<open>
  Chart options are trees of JavaScript values. An object is given by its own
  enumerable properties, a map from keys to values; inherited properties are not
  modelled. The kind of an object tells a plain object (an object literal, a node of
  the options tree) from every other object (an array, a function, a DOM element, a
  class instance), which the options tree holds as one value. An object has an
  identity: it exists before the call under consideration, at some address, or it is
  allocated by the call. Two references are identical when they are equal as values,
  identity included; a copy of an existing object is an allocated object with the same
  properties.
\<close>

datatype object_kind = Plain | Exotic

datatype identity = Existing nat | Allocated

datatype jsval =
    Undefined | Null | JBool bool | JNum real | JStr string
  | JObj object_kind identity "string \<Rightarrow> jsval option"

type_synonym properties = "string \<Rightarrow> jsval option"

text \<open>Reading a property: a missing one reads as \<open>undefined\<close>.\<close>

definition get :: "properties \<Rightarrow> string \<Rightarrow> jsval" where
  "get props key = (case props key of None \<Rightarrow> Undefined | Some v \<Rightarrow> v)"

fun truthy :: "jsval \<Rightarrow> bool" where
  "truthy Undefined = False"
| "truthy Null = False"
| "truthy (JBool b) = b"
| "truthy (JNum n) = (n \<noteq> 0)"
| "truthy (JStr s) = (s \<noteq> [])"
| "truthy (JObj _ _ _) = True"

section \<open>The chart factory (Map.ts, lines 461-532)\<close>

datatype error = TypeError

text \<open>
  The \<open>Chart\<close> class is not among the source files: a chart is represented by the
  arguments \<open>mapChart\<close> hands to its constructor, the render target (when there is
  one), the options and the callback.
\<close>

datatype Chart = NewChart (renderTo: "jsval option") (options: jsval) (callback: jsval)

text \<open>
  \<open>typeof a === 'string' || a.nodeName\<close>, for its truth value. Reading a property of
  \<open>undefined\<close> or \<open>null\<close> throws; a number or a boolean has no \<open>nodeName\<close>.
\<close>

definition hasRenderToArg :: "jsval \<Rightarrow> bool option" where
  "hasRenderToArg a =
    (case a of
       JStr _ \<Rightarrow> Some True
     | JObj _ _ props \<Rightarrow> Some (truthy (get props ''nodeName''))
     | Undefined \<Rightarrow> None
     | Null \<Rightarrow> None
     | _ \<Rightarrow> Some False)"

definition hiddenAxis :: properties where
  "hiddenAxis =
    [ ''endOnTick'' \<mapsto> JBool False,
      ''visible'' \<mapsto> JBool False,
      ''minPadding'' \<mapsto> JNum 0,
      ''maxPadding'' \<mapsto> JNum 0,
      ''startOnTick'' \<mapsto> JBool False ]"

text \<open>
  The first layer of the merge, the defaults of a map chart. \<open>merge\<close> and \<open>pick\<close>
  of Core/Utilities and the credits of the default options (\<open>getOptions().credits\<close>,
  Core/Options) are not among the source files; all three are parameters. A merge
  takes the list of its arguments, each an object given by its properties, and answers
  the properties of the object it returns.
\<close>

definition mapDefaults ::
  "(properties list \<Rightarrow> properties) \<Rightarrow> (jsval \<Rightarrow> jsval \<Rightarrow> jsval) \<Rightarrow> properties \<Rightarrow> properties" where
  "mapDefaults merge pick defaultCreditsOptions =
    [ ''chart'' \<mapsto> JObj Plain Allocated
        [ ''panning'' \<mapsto> JObj Plain Allocated
            [ ''enabled'' \<mapsto> JBool True, ''type'' \<mapsto> JStr ''xy'' ],
          ''type'' \<mapsto> JStr ''map'' ],
      ''credits'' \<mapsto> JObj Plain Allocated
        [ ''mapText'' \<mapsto>
            pick (get defaultCreditsOptions ''mapText'')
              (JStr ('' '' @ [CHR 0xA9] @ '' <a href='' @ [CHR 0x22]
                 @ ''{geojson.copyrightUrl}'' @ [CHR 0x22] @ ''>''
                 @ ''{geojson.copyrightShort}</a>'')),
          ''mapTextFull'' \<mapsto>
            pick (get defaultCreditsOptions ''mapTextFull'')
              (JStr ''{geojson.copyright}'') ],
      ''tooltip'' \<mapsto> JObj Plain Allocated [ ''followTouchMove'' \<mapsto> JBool False ],
      ''xAxis'' \<mapsto> JObj Plain Allocated hiddenAxis,
      ''yAxis'' \<mapsto> JObj Plain Allocated (merge [hiddenAxis, [ ''reversed'' \<mapsto> JBool True ]]) ]"

text \<open>The third layer, the forced options.\<close>

definition forcedOptions :: properties where
  "forcedOptions =
    [ ''chart'' \<mapsto> JObj Plain Allocated
        [ ''inverted'' \<mapsto> JBool False, ''alignTicks'' \<mapsto> JBool False ] ]"

text \<open>
  \<open>mapChart a b c\<close>. The options are \<open>arguments[hasRenderToArg ? 1 : 0]\<close>. Reading
  \<open>series\<close> of \<open>undefined\<close> or \<open>null\<close> throws, and so does the assignment
  \<open>options.series = null\<close> to a primitive value in strict mode: in both cases the
  call ends in a \<open>TypeError\<close>. For an object the function answers the chart it
  constructs, and with it the user's options object as the call leaves it: the call
  assigns to its \<open>series\<close> twice, \<open>null\<close> before the merge, which is handed the
  object in this state, and the value set aside after it.
\<close>

definition mapChart ::
  "(properties list \<Rightarrow> properties) \<Rightarrow> (jsval \<Rightarrow> jsval \<Rightarrow> jsval) \<Rightarrow> properties
    \<Rightarrow> jsval \<Rightarrow> jsval \<Rightarrow> jsval \<Rightarrow> error + Chart \<times> jsval" where
  "mapChart merge pick defaultCreditsOptions a b c =
    (case hasRenderToArg a of
       None \<Rightarrow> Inl TypeError
     | Some has \<Rightarrow>
        (case (if has then b else a) of
           JObj kind ident userOptions \<Rightarrow>
             (let seriesOptions = get userOptions ''series'';
                  nulled = userOptions(''series'' \<mapsto> Null);
                  merged = merge
                    [ mapDefaults merge pick defaultCreditsOptions,
                      nulled,
                      forcedOptions ];
                  options = merged(''series'' \<mapsto> seriesOptions);
                  userOptions' = nulled(''series'' \<mapsto> seriesOptions)
              in Inr (if has then NewChart (Some a) (JObj Plain Allocated options) c
                      else NewChart None (JObj Plain Allocated options) b,
                      JObj kind ident userOptions'))
         | _ \<Rightarrow> Inl TypeError))"

subsection \<open>Objects passed by reference\<close>









subsection \<open>The deep merge\<close>

text \<open>
  Modelled from the spec: \<open>merge\<close> of Core/Utilities, which is not among the source
  files. The spec describes "an options-merge engine that deep-merges nested
  configuration objects three-way (library defaults, user options, forced
  overrides)" that "composes user configuration with defaults layer-by-layer".
  Accordingly the layers are copied in turn into a new empty object; under each key
  of a layer, a plain object is merged into the plain object already there (into a new
  empty one when there is none), which gives a new object, and every other value
  replaces what was there as it is.
\<close>

definition plain_properties :: "jsval option \<Rightarrow> properties" where
  "plain_properties old = (case old of Some (JObj Plain _ props) \<Rightarrow> props | _ \<Rightarrow> Map.empty)"

primrec deepCopy :: "jsval \<Rightarrow> jsval option \<Rightarrow> jsval" where
  "deepCopy Undefined old = Undefined"
| "deepCopy Null old = Null"
| "deepCopy (JBool b) old = JBool b"
| "deepCopy (JNum n) old = JNum n"
| "deepCopy (JStr s) old = JStr s"
| "deepCopy (JObj kind ident original) old =
    (case kind of
       Exotic \<Rightarrow> JObj Exotic ident original
     | Plain \<Rightarrow>
         JObj Plain Allocated (\<lambda>key.
           case map_option deepCopy (original key) of
             None \<Rightarrow> plain_properties old key
           | Some copy_over \<Rightarrow> Some (copy_over (plain_properties old key))))"

definition doCopy :: "properties \<Rightarrow> properties \<Rightarrow> properties" where
  "doCopy copy original =
    (\<lambda>key. case original key of
       None \<Rightarrow> copy key
     | Some v \<Rightarrow> Some (deepCopy v (copy key)))"

definition merge :: "properties list \<Rightarrow> properties" where
  "merge layers = foldl doCopy Map.empty layers"

subsection \<open>Settings of an options tree\<close>

text \<open>
  A setting of an options tree is a value that is not a plain object, reached from
  the root through plain objects along a path of keys. A layer leaves a path untouched
  when, going down the path through its plain objects, it lacks a key of the path. The
  forced options set \<open>chart.inverted\<close> and \<open>chart.alignTicks\<close>: they cover these two
  paths, what lies below them, and \<open>chart\<close> itself.
\<close>

fun setting_at :: "properties \<Rightarrow> string list \<Rightarrow> jsval option" where
  "setting_at props [] = None"
| "setting_at props (key # path) =
    (case props key of
       None \<Rightarrow> None
     | Some (JObj Plain _ inner) \<Rightarrow> setting_at inner path
     | Some v \<Rightarrow> if path = [] then Some v else None)"

fun untouched :: "properties \<Rightarrow> string list \<Rightarrow> bool" where
  "untouched props [] = False"
| "untouched props (key # path) =
    (case props key of
       None \<Rightarrow> True
     | Some (JObj Plain _ inner) \<Rightarrow> untouched inner path
     | Some v \<Rightarrow> False)"

definition covered :: "string list \<Rightarrow> bool" where
  "covered path =
    (prefix path [''chart'', ''inverted''] \<or> prefix [''chart'', ''inverted''] path
     \<or> prefix path [''chart'', ''alignTicks''] \<or> prefix [''chart'', ''alignTicks''] path)"

section \<open>Reading SVG path strings (Map.ts, lines 324-352)\<close>

text \<open>
  A string is a list of 8-bit characters, read as the code units below 256. The
  character classes are those of the regular expressions of \<open>splitPath\<close>:
  \<open>[A-Za-z]\<close> in the first replacement, \<open>\s\<close> in the two trimming replacements (the
  white space below 256: tab, line feed, vertical tab, form feed, carriage return,
  space and no-break space), \<open>[ ,;]\<close> in the split, and \<open>[A-za-z]\<close> (the range from
  \<open>A\<close> to \<open>z\<close>, and the range from \<open>a\<close> to \<open>z\<close>) in the test of each item.
\<close>

definition is_letter :: "char \<Rightarrow> bool" where
  "is_letter c = ((CHR ''A'' \<le> c \<and> c \<le> CHR ''Z'') \<or> (CHR ''a'' \<le> c \<and> c \<le> CHR ''z''))"

definition in_A_to_z :: "char \<Rightarrow> bool" where
  "in_A_to_z c = ((CHR ''A'' \<le> c \<and> c \<le> CHR ''z'') \<or> (CHR ''a'' \<le> c \<and> c \<le> CHR ''z''))"

definition is_space :: "char \<Rightarrow> bool" where
  "is_space c = (c \<in> set [CHR 0x09, CHR 0x0A, CHR 0x0B, CHR 0x0C, CHR 0x0D, CHR 0x20, CHR 0xA0])"

definition is_delimiter :: "char \<Rightarrow> bool" where
  "is_delimiter c = (c \<in> set '' ,;'')"

text \<open>\<open>.replace(/([A-Za-z])/g, ' $1 ')\<close>: move letters apart.\<close>

definition move_letters_apart :: "string \<Rightarrow> string" where
  "move_letters_apart s = concat (map (\<lambda>c. if is_letter c then [CHR '' '', c, CHR '' ''] else [c]) s)"

text \<open>\<open>.replace(/^\s*/, '')\<close> and \<open>.replace(/\s*$/, '')\<close>: trim.\<close>

definition trim_start :: "string \<Rightarrow> string" where
  "trim_start s = dropWhile is_space s"

definition trim_end :: "string \<Rightarrow> string" where
  "trim_end s = rev (dropWhile is_space (rev s))"

text \<open>
  \<open>String.prototype.split\<close> for a separator that matches the non-empty runs of the
  characters \<open>d\<close>: the pieces between the runs, in order. A string without such a
  character is its only piece (the empty string too); a run at the start or at the end
  of the string gives an empty first or last piece.
\<close>

function split_on :: "(char \<Rightarrow> bool) \<Rightarrow> string \<Rightarrow> string list" where
  "split_on d s =
    (case dropWhile (\<lambda>c. \<not> d c) s of
       [] \<Rightarrow> [s]
     | sep # rest \<Rightarrow> takeWhile (\<lambda>c. \<not> d c) s # split_on d (dropWhile d rest))"
  by pat_completeness auto
termination
proof (relation "measure (\<lambda>(d, s). length s)")
  show "wf (measure (\<lambda>(d, s). length s))" by simp
next
  fix d :: "char \<Rightarrow> bool" and s sep rest
  assume "dropWhile (\<lambda>c. \<not> d c) s = sep # rest"
  then have "length (sep # rest) \<le> length s"
    by (metis length_dropWhile_le)
  moreover have "length (dropWhile d rest) \<le> length rest"
    by (rule length_dropWhile_le)
  ultimately show "((d, dropWhile d rest), (d, s)) \<in> measure (\<lambda>(d, s). length s)"
    by simp
qed

declare split_on.simps [simp del]

text \<open>
  \<open>parseFloat\<close> of the host, for the strings \<open>splitPath\<close> passes to it. They hold
  no character from \<open>A\<close> to \<open>z\<close>, hence neither an exponent part nor
  \<open>Infinity\<close>: after leading white space and an optional sign, the longest prefix of
  the form digits, digits \<open>.\<close> digits or \<open>.\<close> digits is read as a decimal number,
  and what follows it is ignored; without such a prefix the answer is \<open>NaN\<close>. The
  number is the exact decimal value, not rounded to a double.
\<close>

definition is_digit :: "char \<Rightarrow> bool" where
  "is_digit c = (CHR ''0'' \<le> c \<and> c \<le> CHR ''9'')"

definition digits_value :: "string \<Rightarrow> nat" where
  "digits_value ds = foldl (\<lambda>acc c. 10 * acc + (of_char c - 48)) 0 ds"

definition parseFloat :: "string \<Rightarrow> path_item" where
  "parseFloat s =
    (let t = dropWhile is_space s;
         negative = (t \<noteq> [] \<and> hd t = CHR ''-'');
         u = (if t \<noteq> [] \<and> (hd t = CHR ''-'' \<or> hd t = CHR ''+'') then tl t else t);
         int_digits = takeWhile is_digit u;
         after = dropWhile is_digit u;
         frac_digits = (if after \<noteq> [] \<and> hd after = CHR ''.'' then takeWhile is_digit (tl after) else [])
     in if int_digits = [] \<and> frac_digits = [] then NaN
        else let magnitude = real (digits_value int_digits)
                   + real (digits_value frac_digits) / 10 ^ length frac_digits
             in Num (if negative then - magnitude else magnitude))"

text \<open>
  The callback of \<open>split.map\<close>: an item that fails the test \<open>/[A-za-z]/\<close> is
  converted by \<open>parseFloat\<close>, any other item is kept.
\<close>

definition classify :: "string \<Rightarrow> path_item" where
  "classify item = (if \<not> list_ex in_A_to_z item then parseFloat item else Str item)"

text \<open>The array \<open>split\<close> of the source.\<close>

definition tokens :: "string \<Rightarrow> string list" where
  "tokens str = split_on is_delimiter (trim_end (trim_start (move_letters_apart str)))"

text \<open>
  \<open>splitPath\<close> takes a string or an array of strings and numbers.
  \<open>SVGRenderer.prototype.pathToSegments\<close> is not among the source files; it is a
  parameter.
\<close>

datatype path_arg = PathString string | PathArray "path_item list"

definition splitPath :: "(path_item list \<Rightarrow> SVGPath) \<Rightarrow> path_arg \<Rightarrow> SVGPath" where
  "splitPath pathToSegments path =
    (case path of
       PathString str \<Rightarrow>
         (let split = tokens str;
              arr = map classify split
          in pathToSegments arr)
     | PathArray arr \<Rightarrow> pathToSegments arr)"

text \<open>
  The tokenizer as the specification words it, for comparison: the string is split
  "on whitespace/comma/semicolon delimiters", and a token is kept when it contains a
  letter and converted to a float when it contains none.
\<close>

definition spec_delimiter :: "char \<Rightarrow> bool" where
  "spec_delimiter c = (is_space c \<or> c = CHR '','' \<or> c = CHR '';'')"

definition spec_items :: "string \<Rightarrow> path_item list" where
  "spec_items str =
    map (\<lambda>item. if list_ex is_letter item then Str item else parseFloat item)
      (split_on spec_delimiter (trim_end (trim_start (move_letters_apart str))))"

text \<open>
  In a string with isolated letters every letter has a space, or an end of the
  string, on either side; the flag tells whether the string follows a space or starts
  the text.
\<close>

fun isolated :: "bool \<Rightarrow> string \<Rightarrow> bool" where
  "isolated b [] = True"
| "isolated b (c # cs) =
    (if is_letter c then b \<and> (cs = [] \<or> hd cs = CHR '' '') \<and> isolated False cs
     else isolated (c = CHR '' '') cs)"

section \<open>Well-formed path strings and their segments\<close>

text \<open>
  Modelled from the spec: \<open>SVGRenderer.prototype.pathToSegments\<close>
  (Core/Renderer/SVG), which is not among the source files. By the spec "a downstream
  segmenter groups tokens into per-command segments (e.g., \<open>M x y\<close>,
  \<open>C x1 y1 x2 y2 x y\<close>)": a segment starts at each string item and holds the numbers
  up to the next string item; numbers in front of the first string item form a segment
  of their own.
\<close>

fun starts_with_command :: "segment \<Rightarrow> bool" where
  "starts_with_command (Str c # _) = True"
| "starts_with_command _ = False"

fun spec_pathToSegments :: "path_item list \<Rightarrow> SVGPath" where
  "spec_pathToSegments [] = []"
| "spec_pathToSegments (x # xs) =
    (case spec_pathToSegments xs of
       [] \<Rightarrow> [[x]]
     | seg # segs \<Rightarrow> if starts_with_command seg then [x] # seg # segs else (x # seg) # segs)"

text \<open>
  The path strings of the round trip are "command letters with numeric operands
  separated by the accepted delimiters". A lexeme is a command letter or a numeric
  operand: an optional sign, integer digits, and fraction digits after a point, with a
  digit on at least one side of the point. It stands for an item of the path: the
  letter, or the decimal value of the operand.
\<close>

datatype sign = NoSign | Plus | Minus

datatype lexeme = Command char | Operand sign string string

fun sign_text :: "sign \<Rightarrow> string" where
  "sign_text NoSign = []"
| "sign_text Plus = ''+''"
| "sign_text Minus = ''-''"

fun lexeme_text :: "lexeme \<Rightarrow> string" where
  "lexeme_text (Command c) = [c]"
| "lexeme_text (Operand sg ds fs) = sign_text sg @ ds @ (if fs = [] then [] else CHR ''.'' # fs)"

fun lexeme_item :: "lexeme \<Rightarrow> path_item" where
  "lexeme_item (Command c) = Str [c]"
| "lexeme_item (Operand sg ds fs) =
    Num ((if sg = Minus then - 1 else 1)
         * (real (digits_value ds) + real (digits_value fs) / 10 ^ length fs))"

fun wf_lexeme :: "lexeme \<Rightarrow> bool" where
  "wf_lexeme (Command c) = is_letter c"
| "wf_lexeme (Operand sg ds fs) = (list_all is_digit ds \<and> list_all is_digit fs \<and> (ds \<noteq> [] \<or> fs \<noteq> []))"

fun is_operand :: "lexeme \<Rightarrow> bool" where
  "is_operand (Command c) = False"
| "is_operand (Operand sg ds fs) = True"

text \<open>
  A layout lists the lexemes of a string in order, each with the separator in front
  of it; the string is the layout written out, with a trailing separator. The layout is
  well formed for a class \<open>d\<close> of delimiter characters when it has a lexeme, every
  separator is a run of delimiters, two operands in a row have a non-empty separator
  between them, and the separators at the two ends of the string are white space.
\<close>

definition render :: "(string \<times> lexeme) list \<Rightarrow> string \<Rightarrow> string" where
  "render layout trailing = concat (map (\<lambda>(sep, lx). sep @ lexeme_text lx) layout) @ trailing"

fun wf_layout :: "(char \<Rightarrow> bool) \<Rightarrow> bool \<Rightarrow> (string \<times> lexeme) list \<Rightarrow> bool" where
  "wf_layout d prev [] = True"
| "wf_layout d prev ((sep, lx) # rest) =
    (list_all d sep \<and> wf_lexeme lx \<and> (if prev \<and> is_operand lx then sep \<noteq> [] else True)
     \<and> wf_layout d (is_operand lx) rest)"

definition well_formed :: "(char \<Rightarrow> bool) \<Rightarrow> (string \<times> lexeme) list \<Rightarrow> string \<Rightarrow> bool" where
  "well_formed d layout trailing =
    (layout \<noteq> [] \<and> list_all is_space (fst (hd layout)) \<and> list_all is_space trailing
     \<and> list_all d trailing \<and> wf_layout d False layout)"

text \<open>Auxiliary notions of the proofs: what \<open>move_letters_apart\<close> makes of a layout.\<close>

definition fraction_text :: "string \<Rightarrow> string" where
  "fraction_text fs = (if fs = [] then [] else CHR ''.'' # fs)"

fun padding :: "lexeme \<Rightarrow> string" where
  "padding (Command c) = '' ''"
| "padding (Operand sg ds fs) = []"

fun spread_layout :: "(string \<times> lexeme) list \<Rightarrow> string \<Rightarrow> string" where
  "spread_layout [] trailing = trailing"
| "spread_layout ((sep, lx) # rest) trailing =
    sep @ padding lx @ lexeme_text lx @ padding lx @ spread_layout rest trailing"

definition token_text :: "string \<Rightarrow> bool" where
  "token_text t = (t \<noteq> [] \<and> (\<forall>c\<in>set t. \<not> is_delimiter c \<and> \<not> is_space c))"

section \<open>The shape of the rounded rectangle\<close>





text \<open>
  C4. With all four radii zero the path is the plain rectangle with the corners
  \<open>(x, y)\<close>, \<open>(x + w, y)\<close>, \<open>(x + w, y + h)\<close> and \<open>(x, y + h)\<close>: the lines run
  from corner to corner, and each of the four corner curves has both control points
  and its end point on the corner itself.
\<close>

theorem selectiveRoundedRect_zero_radii:
  "selectiveRoundedRect x y w h 0 0 0 0 =
      [ [Str ''M'', Num x, Num y],
        [Str ''L'', Num (x + w), Num y],
        [Str ''C'', Num (x + w), Num y, Num (x + w), Num y, Num (x + w), Num y],
        [Str ''L'', Num (x + w), Num (y + h)],
        [Str ''C'', Num (x + w), Num (y + h), Num (x + w), Num (y + h), Num (x + w), Num (y + h)],
        [Str ''L'', Num x, Num (y + h)],
        [Str ''C'', Num x, Num (y + h), Num x, Num (y + h), Num x, Num (y + h)],
        [Str ''L'', Num x, Num y],
        [Str ''C'', Num x, Num y, Num x, Num y, Num x, Num y],
        [Str ''Z''] ]
   \<and> map curve_points (filter is_curve (selectiveRoundedRect x y w h 0 0 0 0)) =
      [ Some ((x + w, y), (x + w, y), (x + w, y)),
        Some ((x + w, y + h), (x + w, y + h), (x + w, y + h)),
        Some ((x, y + h), (x, y + h), (x, y + h)),
        Some ((x, y), (x, y), (x, y)) ]
   \<and> map end_point (selectiveRoundedRect x y w h 0 0 0 0) =
      [ Some (x, y), Some (x + w, y), Some (x + w, y), Some (x + w, y + h),
        Some (x + w, y + h), Some (x, y + h), Some (x, y + h), Some (x, y), Some (x, y),
        None ]"
  by (simp add: selectiveRoundedRect_def end_point_def is_curve_def)


text \<open>
  C8. \<open>topbutton\<close> is the rounded rectangle of the box moved by \<open>(-1, -1)\<close> with
  the option's radius on the two top corners and none on the bottom ones;
  \<open>bottombutton\<close> has the radius on the two bottom corners instead. Without an
  options object, or without its \<open>r\<close>, the radius is 0.
\<close>

theorem button_symbols:
  "topbutton x y w h (Some (opts\<lparr>r := Some v\<rparr>)) =
      selectiveRoundedRect (x - 1) (y - 1) w h v v 0 0
   \<and> bottombutton x y w h (Some (opts\<lparr>r := Some v\<rparr>)) =
      selectiveRoundedRect (x - 1) (y - 1) w h 0 0 v v
   \<and> topbutton x y w h (Some (opts\<lparr>r := None\<rparr>)) =
      selectiveRoundedRect (x - 1) (y - 1) w h 0 0 0 0
   \<and> bottombutton x y w h (Some (opts\<lparr>r := None\<rparr>)) =
      selectiveRoundedRect (x - 1) (y - 1) w h 0 0 0 0
   \<and> topbutton x y w h None = selectiveRoundedRect (x - 1) (y - 1) w h 0 0 0 0
   \<and> bottombutton x y w h None = selectiveRoundedRect (x - 1) (y - 1) w h 0 0 0 0"
  by (simp add: topbutton_def bottombutton_def button_radius_def)

section \<open>The options of a map chart\<close>

subsection \<open>The deep merge, key by key\<close>

lemma plain_properties_simps [simp]:
  "plain_properties None = Map.empty"
  "plain_properties (Some (JObj Plain ident props)) = props"
  "plain_properties (Some (JObj Exotic ident props)) = Map.empty"
  "plain_properties (Some Undefined) = Map.empty"
  "plain_properties (Some Null) = Map.empty"
  "plain_properties (Some (JBool b)) = Map.empty"
  "plain_properties (Some (JNum n)) = Map.empty"
  "plain_properties (Some (JStr s)) = Map.empty"
  by (simp_all add: plain_properties_def)

lemma deepCopy_Plain:
  "deepCopy (JObj Plain ident original) old =
     JObj Plain Allocated (doCopy (plain_properties old) original)"
  by (auto simp: doCopy_def fun_eq_iff split: option.splits)

lemma deepCopy_Exotic:
  "deepCopy (JObj Exotic ident original) old = JObj Exotic ident original"
  by simp

declare deepCopy.simps(6) [simp del]

declare deepCopy_Plain [simp] deepCopy_Exotic [simp]

lemma deepCopy_other:
  "(\<And>ident props. v \<noteq> JObj Plain ident props) \<Longrightarrow> deepCopy v old = v"
proof (cases v)
  case (JObj kind ident props)
  assume "\<And>ident props. v \<noteq> JObj Plain ident props"
  with JObj show ?thesis by (cases kind) auto
qed auto

lemma setting_at_empty: "setting_at Map.empty path = None"
  by (cases path) auto

lemma setting_at_doCopy_later:
  "setting_at original path = Some v \<Longrightarrow> setting_at (doCopy copy original) path = Some v"
proof (induction path arbitrary: copy original)
  case Nil
  then show ?case by simp
next
  case (Cons key path)
  from Cons.prems obtain x where x: "original key = Some x"
    by (auto split: option.splits)
  show ?case
  proof (cases "\<exists>ident inner. x = JObj Plain ident inner")
    case True
    then obtain ident inner where inner: "x = JObj Plain ident inner" by blast
    with Cons.prems x have "setting_at inner path = Some v" by simp
    then have "setting_at (doCopy (plain_properties (copy key)) inner) path = Some v"
      by (rule Cons.IH)
    then show ?thesis
      using x inner by (simp add: doCopy_def [of copy original] deepCopy_Plain)
  next
    case False
    then have same: "deepCopy x (copy key) = x"
      by (intro deepCopy_other) blast
    from False Cons.prems x have "path = [] \<and> v = x"
      by (cases x) (auto split: object_kind.splits if_splits)
    then show ?thesis
      using x same False by (cases x) (auto simp: doCopy_def split: object_kind.splits)
  qed
qed

lemma setting_at_doCopy_untouched:
  "untouched original path \<Longrightarrow> setting_at (doCopy copy original) path = setting_at copy path"
proof (induction path arbitrary: copy original)
  case Nil
  then show ?case by simp
next
  case (Cons key path)
  show ?case
  proof (cases "original key")
    case None
    then show ?thesis by (simp add: doCopy_def)
  next
    case (Some x)
    with Cons.prems obtain ident inner where inner: "x = JObj Plain ident inner"
      and u: "untouched inner path"
      by (cases x) (auto split: object_kind.splits)
    from u have ne: "path \<noteq> []" by (cases path) auto
    have "setting_at (doCopy (plain_properties (copy key)) inner) path
          = setting_at (plain_properties (copy key)) path"
      using u by (rule Cons.IH)
    also have "\<dots> = setting_at copy (key # path)"
      using ne by (auto simp: plain_properties_def setting_at_empty
          split: option.splits jsval.splits object_kind.splits)
    finally show ?thesis
      using Some inner by (simp add: doCopy_def [of copy original] deepCopy_Plain)
  qed
qed

lemma untouched_forced:
  "path \<noteq> [] \<Longrightarrow> \<not> covered path \<Longrightarrow> untouched forcedOptions path"
proof (cases path)
  case Nil
  assume "path \<noteq> []" with Nil show ?thesis by simp
next
  case (Cons key rest)
  assume nc: "\<not> covered path"
  show ?thesis
  proof (cases "key = ''chart''")
    case False
    then show ?thesis using Cons by (simp add: forcedOptions_def)
  next
    case True
    show ?thesis
    proof (cases rest)
      case Nil
      with True Cons nc show ?thesis by (simp add: covered_def)
    next
      case (Cons k2 rest2)
      with True \<open>path = key # rest\<close> nc show ?thesis
        by (auto simp: covered_def forcedOptions_def)
    qed
  qed
qed

lemma user_setting_wins:
  assumes s: "setting_at user path = Some v" and nc: "\<not> covered path"
  shows "setting_at ((merge [defaults, user(''series'' \<mapsto> Null), forcedOptions])
            (''series'' \<mapsto> get user ''series'')) path = Some v"
proof (cases path)
  case Nil
  with s show ?thesis by simp
next
  case (Cons key rest)
  show ?thesis
  proof (cases "key = ''series''")
    case True
    with s Cons show ?thesis
      by (auto simp: get_def split: option.splits jsval.splits object_kind.splits if_splits)
  next
    case False
    let ?U = "user(''series'' \<mapsto> Null)"
    from False s Cons have "setting_at ?U path = Some v" by simp
    then have "setting_at (doCopy (doCopy Map.empty defaults) ?U) path = Some v"
      by (rule setting_at_doCopy_later)
    moreover have "untouched forcedOptions path"
      using Cons nc by (intro untouched_forced) auto
    ultimately have "setting_at (merge [defaults, ?U, forcedOptions]) path = Some v"
      by (simp add: merge_def setting_at_doCopy_untouched)
    with False Cons show ?thesis by simp
  qed
qed

lemma default_setting_stays:
  assumes s: "setting_at defaults path = Some v"
    and u: "untouched (user(''series'' \<mapsto> Null)) path" and nc: "\<not> covered path"
  shows "setting_at ((merge [defaults, user(''series'' \<mapsto> Null), forcedOptions])
            (''series'' \<mapsto> get user ''series'')) path = Some v"
proof (cases path)
  case Nil
  with s show ?thesis by simp
next
  case (Cons key rest)
  from u Cons have ns: "key \<noteq> ''series''" by auto
  let ?U = "user(''series'' \<mapsto> Null)"
  have "setting_at (doCopy Map.empty defaults) path = Some v"
    using s by (rule setting_at_doCopy_later)
  moreover have "untouched forcedOptions path"
    using Cons nc by (intro untouched_forced) auto
  ultimately have "setting_at (merge [defaults, ?U, forcedOptions]) path = Some v"
    using u by (simp add: merge_def setting_at_doCopy_untouched)
  with ns Cons show ?thesis by simp
qed

lemma forced_setting_wins:
  "setting_at ((merge [defaults, user, forcedOptions])(''series'' \<mapsto> s)) [''chart'', ''inverted'']
     = Some (JBool False)
   \<and> setting_at ((merge [defaults, user, forcedOptions])(''series'' \<mapsto> s)) [''chart'', ''alignTicks'']
     = Some (JBool False)"
  by (simp add: merge_def doCopy_def forcedOptions_def)

lemma mapDefaults_settings:
  "setting_at (mapDefaults merge pick credits) [''chart'', ''panning'', ''enabled''] = Some (JBool True)
   \<and> setting_at (mapDefaults merge pick credits) [''chart'', ''panning'', ''type''] = Some (JStr ''xy'')
   \<and> setting_at (mapDefaults merge pick credits) [''chart'', ''type''] = Some (JStr ''map'')
   \<and> setting_at (mapDefaults merge pick credits) [''tooltip'', ''followTouchMove''] = Some (JBool False)
   \<and> setting_at (mapDefaults merge pick credits) [''xAxis'', ''visible''] = Some (JBool False)
   \<and> setting_at (mapDefaults merge pick credits) [''yAxis'', ''visible''] = Some (JBool False)
   \<and> setting_at (mapDefaults merge pick credits) [''yAxis'', ''reversed''] = Some (JBool True)"
  by (simp add: mapDefaults_def hiddenAxis_def merge_def doCopy_def)

lemma merge_key:
  "k \<noteq> ''series'' \<Longrightarrow>
   merge [defaults, user(''series'' \<mapsto> v), forced] k = merge [defaults, user(''series'' := None), forced] k"
  by (simp add: merge_def doCopy_def)


text \<open>
  C1. For every user options object, the options of the chart that \<open>mapChart\<close>
  constructs are the deep merge of three layers, the map defaults, the user's options
  (with \<open>series\<close> set aside) and the forced options. So \<open>chart.inverted\<close> and
  \<open>chart.alignTicks\<close> are false whatever the user says; every setting of the user
  that the forced options do not cover is in the result as the user gave it; and a map
  default (panning enabled with type xy, chart type map, the map credits text,
  \<open>tooltip.followTouchMove\<close> false, the hidden axes, the y axis reversed) is in the
  result where the user's options leave its path untouched.
\<close>

theorem mapChart_layers:
  assumes has: "hasRenderToArg a = Some has"
    and arg: "(if has then b else a) = JObj kind ident user"
  shows "\<exists>opts after.
      mapChart merge pick defaultCreditsOptions a b c =
        Inr (NewChart (if has then Some a else None) (JObj Plain Allocated opts) (if has then c else b), after)
    \<and> opts = (merge [mapDefaults merge pick defaultCreditsOptions, user(''series'' \<mapsto> Null), forcedOptions])
               (''series'' \<mapsto> get user ''series'')
    \<and> setting_at opts [''chart'', ''inverted''] = Some (JBool False)
    \<and> setting_at opts [''chart'', ''alignTicks''] = Some (JBool False)
    \<and> (\<forall>path v. setting_at user path = Some v \<longrightarrow> \<not> covered path \<longrightarrow>
          setting_at opts path = Some v)
    \<and> (\<forall>path v. setting_at (mapDefaults merge pick defaultCreditsOptions) path = Some v \<longrightarrow>
          untouched (user(''series'' \<mapsto> Null)) path \<longrightarrow> \<not> covered path \<longrightarrow>
          setting_at opts path = Some v)
    \<and> map (setting_at (mapDefaults merge pick defaultCreditsOptions))
          [ [''chart'', ''panning'', ''enabled''], [''chart'', ''panning'', ''type''],
            [''chart'', ''type''], [''tooltip'', ''followTouchMove''],
            [''xAxis'', ''visible''], [''yAxis'', ''visible''], [''yAxis'', ''reversed''] ] =
        map Some
          [ JBool True, JStr ''xy'', JStr ''map'', JBool False,
            JBool False, JBool False, JBool True ]
    \<and> get (plain_properties (mapDefaults merge pick defaultCreditsOptions ''credits'')) ''mapText'' =
        pick (get defaultCreditsOptions ''mapText'')
          (JStr ('' '' @ [CHR 0xA9] @ '' <a href='' @ [CHR 0x22] @ ''{geojson.copyrightUrl}''
             @ [CHR 0x22] @ ''>'' @ ''{geojson.copyrightShort}</a>''))"
proof -
  let ?D = "mapDefaults merge pick defaultCreditsOptions"
  let ?opts = "(merge [?D, user(''series'' \<mapsto> Null), forcedOptions])
                 (''series'' \<mapsto> get user ''series'')"
  have call: "mapChart merge pick defaultCreditsOptions a b c =
      Inr (NewChart (if has then Some a else None) (JObj Plain Allocated ?opts) (if has then c else b),
           JObj kind ident (user(''series'' \<mapsto> get user ''series'')))"
    using has arg by (cases has) (simp_all add: mapChart_def Let_def)
  have forced: "setting_at ?opts [''chart'', ''inverted''] = Some (JBool False)
      \<and> setting_at ?opts [''chart'', ''alignTicks''] = Some (JBool False)"
    by (rule forced_setting_wins)
  have wins: "\<forall>path v. setting_at user path = Some v \<longrightarrow> \<not> covered path \<longrightarrow>
      setting_at ?opts path = Some v"
    by (blast intro: user_setting_wins)
  have stays: "\<forall>path v. setting_at ?D path = Some v \<longrightarrow>
      untouched (user(''series'' \<mapsto> Null)) path \<longrightarrow> \<not> covered path \<longrightarrow>
      setting_at ?opts path = Some v"
    by (blast intro: default_setting_stays)
  have dflt: "map (setting_at ?D)
          [ [''chart'', ''panning'', ''enabled''], [''chart'', ''panning'', ''type''],
            [''chart'', ''type''], [''tooltip'', ''followTouchMove''],
            [''xAxis'', ''visible''], [''yAxis'', ''visible''], [''yAxis'', ''reversed''] ] =
        map Some
          [ JBool True, JStr ''xy'', JStr ''map'', JBool False,
            JBool False, JBool False, JBool True ]"
    using mapDefaults_settings [of pick defaultCreditsOptions] by simp
  have cred: "get (plain_properties (?D ''credits'')) ''mapText'' =
        pick (get defaultCreditsOptions ''mapText'')
          (JStr ('' '' @ [CHR 0xA9] @ '' <a href='' @ [CHR 0x22] @ ''{geojson.copyrightUrl}''
             @ [CHR 0x22] @ ''>'' @ ''{geojson.copyrightShort}</a>''))"
    by (simp add: mapDefaults_def plain_properties_def get_def)
  from call forced wins stays dflt cred show ?thesis by blast
qed

theorem mapChart_layers_witness:
  "\<exists>opts after.
      mapChart merge (\<lambda>x y. if x = Undefined \<or> x = Null then y else x) Map.empty
        (JStr ''container'')
        (JObj Plain (Existing 1)
          [ ''chart'' \<mapsto> JObj Plain (Existing 2)
              [ ''inverted'' \<mapsto> JBool True, ''type'' \<mapsto> JStr ''line'' ],
            ''series'' \<mapsto> JObj Exotic (Existing 3)
              [ ''0'' \<mapsto> JObj Plain (Existing 4) [ ''name'' \<mapsto> JStr ''World'' ] ] ])
        Undefined =
        Inr (NewChart (Some (JStr ''container'')) (JObj Plain Allocated opts) Undefined, after)
    \<and> setting_at opts [''chart'', ''inverted''] = Some (JBool False)
    \<and> setting_at opts [''chart'', ''alignTicks''] = Some (JBool False)
    \<and> setting_at opts [''chart'', ''type''] = Some (JStr ''line'')
    \<and> setting_at opts [''chart'', ''panning'', ''type''] = Some (JStr ''xy'')
    \<and> setting_at opts [''yAxis'', ''reversed''] = Some (JBool True)"
proof -
  let ?pick = "\<lambda>x y. if x = Undefined \<or> x = Null then y else x"
  let ?user = "[ ''chart'' \<mapsto> JObj Plain (Existing 2)
              [ ''inverted'' \<mapsto> JBool True, ''type'' \<mapsto> JStr ''line'' ],
            ''series'' \<mapsto> JObj Exotic (Existing 3)
              [ ''0'' \<mapsto> JObj Plain (Existing 4) [ ''name'' \<mapsto> JStr ''World'' ] ] ]"
  have has: "hasRenderToArg (JStr ''container'') = Some True"
    by (simp add: hasRenderToArg_def)
  have arg: "(if True then JObj Plain (Existing 1) ?user else JStr ''container'')
      = JObj Plain (Existing 1) ?user"
    by simp
  from mapChart_layers [OF has arg, of ?pick Map.empty Undefined]
  obtain opts after where
    call: "mapChart merge ?pick Map.empty (JStr ''container'') (JObj Plain (Existing 1) ?user) Undefined =
        Inr (NewChart (Some (JStr ''container'')) (JObj Plain Allocated opts) Undefined, after)"
    and inv: "setting_at opts [''chart'', ''inverted''] = Some (JBool False)"
    and ali: "setting_at opts [''chart'', ''alignTicks''] = Some (JBool False)"
    and wins: "\<And>path v. setting_at ?user path = Some v \<Longrightarrow> \<not> covered path \<Longrightarrow>
          setting_at opts path = Some v"
    and stays: "\<And>path v. setting_at (mapDefaults merge ?pick Map.empty) path = Some v \<Longrightarrow>
          untouched (?user(''series'' \<mapsto> Null)) path \<Longrightarrow> \<not> covered path \<Longrightarrow>
          setting_at opts path = Some v"
    by (simp only: if_True) blast
  have t: "setting_at opts [''chart'', ''type''] = Some (JStr ''line'')"
    by (rule wins) (simp_all add: covered_def)
  have p: "setting_at opts [''chart'', ''panning'', ''type''] = Some (JStr ''xy'')"
    by (rule stays) (simp_all add: covered_def mapDefaults_def)
  have y: "setting_at opts [''yAxis'', ''reversed''] = Some (JBool True)"
    by (rule stays) (simp_all add: covered_def mapDefaults_def hiddenAxis_def merge_def doCopy_def)
  from call inv ali t p y show ?thesis by blast
qed

subsection \<open>The series set aside\<close>

lemma mapChart_result:
  assumes has: "hasRenderToArg a = Some has"
    and arg: "(if has then b else a) = JObj kind ident user"
  shows "mapChart any_merge pick defaultCreditsOptions a b c =
      Inr (NewChart (if has then Some a else None)
             (JObj Plain Allocated
               ((any_merge [mapDefaults any_merge pick defaultCreditsOptions,
                            user(''series'' \<mapsto> Null), forcedOptions])
                  (''series'' \<mapsto> get user ''series'')))
             (if has then c else b),
           JObj kind ident (user(''series'' \<mapsto> get user ''series'')))"
  using has arg by (cases has) (simp_all add: mapChart_def Let_def)


text \<open>
  C10. For every user options object, and whatever function \<open>merge\<close> is,
  \<open>mapChart\<close> sets \<open>series\<close> aside before the merge and restores it after. The
  merge is handed three layers, and the second is the user's object with \<open>null\<close>
  under \<open>series\<close> and every other entry as the user gave it. The \<open>series\<close> of the
  chart's options is the value the user passed, with its identity (the very object, not
  a copy), put in the place of what the merge answers there; every other entry of the
  chart's options is what the merge answers. After the call the user's options object,
  the same object as before, has its \<open>series\<close> as before and every other entry
  unchanged.
\<close>

theorem mapChart_series:
  assumes has: "hasRenderToArg a = Some has"
    and arg: "(if has then b else a) = JObj kind ident user"
  shows "\<exists>layer merged opts.
      mapChart any_merge pick defaultCreditsOptions a b c =
        Inr (NewChart (if has then Some a else None) (JObj Plain Allocated opts)
               (if has then c else b),
             JObj kind ident (user(''series'' \<mapsto> get user ''series'')))
    \<and> merged = any_merge [mapDefaults any_merge pick defaultCreditsOptions, layer, forcedOptions]
    \<and> layer ''series'' = Some Null
    \<and> (\<forall>key. key \<noteq> ''series'' \<longrightarrow> layer key = user key)
    \<and> opts ''series'' = Some (get user ''series'')
    \<and> (\<forall>key. key \<noteq> ''series'' \<longrightarrow> opts key = merged key)
    \<and> get (user(''series'' \<mapsto> get user ''series'')) ''series'' = get user ''series''
    \<and> (\<forall>key. key \<noteq> ''series'' \<longrightarrow> (user(''series'' \<mapsto> get user ''series'')) key = user key)"
proof -
  let ?layer = "user(''series'' \<mapsto> Null)"
  let ?merged = "any_merge [mapDefaults any_merge pick defaultCreditsOptions, ?layer, forcedOptions]"
  let ?opts = "?merged(''series'' \<mapsto> get user ''series'')"
  have call: "mapChart any_merge pick defaultCreditsOptions a b c =
      Inr (NewChart (if has then Some a else None) (JObj Plain Allocated ?opts)
             (if has then c else b),
           JObj kind ident (user(''series'' \<mapsto> get user ''series'')))"
    using has arg by (rule mapChart_result)
  have l1: "?layer ''series'' = Some Null" by simp
  have l2: "\<forall>key. key \<noteq> ''series'' \<longrightarrow> ?layer key = user key" by simp
  have o1: "?opts ''series'' = Some (get user ''series'')" by simp
  have o2: "\<forall>key. key \<noteq> ''series'' \<longrightarrow> ?opts key = ?merged key" by simp
  have u1: "get (user(''series'' \<mapsto> get user ''series'')) ''series'' = get user ''series''"
    by (simp add: get_def)
  have u2: "\<forall>key. key \<noteq> ''series'' \<longrightarrow> (user(''series'' \<mapsto> get user ''series'')) key = user key"
    by simp
  from call l1 l2 o1 o2 u1 u2 show ?thesis by blast
qed

text \<open>
  A merge that only reports the \<open>series\<close> of its second argument sees \<open>null\<close>
  there, not the user's series; a merge that answers its second argument as it is shows
  the user's other entries. In both cases the chart's options get the user's series.
\<close>

theorem mapChart_series_witness:
  "(\<exists>opts.
      mapChart (\<lambda>layers. [ ''seen'' \<mapsto> get (hd (tl layers)) ''series'' ])
        (\<lambda>x y. if x = Undefined \<or> x = Null then y else x) Map.empty
        (JObj Plain (Existing 1)
          [ ''title'' \<mapsto> JObj Plain (Existing 2) [ ''text'' \<mapsto> JStr ''Population'' ],
            ''series'' \<mapsto> JObj Plain (Existing 3) [ ''chart'' \<mapsto> JNum 1 ] ])
        Undefined Undefined =
        Inr (NewChart None (JObj Plain Allocated opts) Undefined,
             JObj Plain (Existing 1)
               [ ''title'' \<mapsto> JObj Plain (Existing 2) [ ''text'' \<mapsto> JStr ''Population'' ],
                 ''series'' \<mapsto> JObj Plain (Existing 3) [ ''chart'' \<mapsto> JNum 1 ] ])
    \<and> opts ''seen'' = Some Null
    \<and> opts ''series'' = Some (JObj Plain (Existing 3) [ ''chart'' \<mapsto> JNum 1 ]))
   \<and> (\<exists>opts.
      mapChart (\<lambda>layers. hd (tl layers))
        (\<lambda>x y. if x = Undefined \<or> x = Null then y else x) Map.empty
        (JStr ''container'')
        (JObj Plain (Existing 1)
          [ ''title'' \<mapsto> JObj Plain (Existing 2) [ ''text'' \<mapsto> JStr ''Population'' ],
            ''series'' \<mapsto> JObj Plain (Existing 3) [ ''chart'' \<mapsto> JNum 1 ] ])
        Undefined =
        Inr (NewChart (Some (JStr ''container'')) (JObj Plain Allocated opts) Undefined,
             JObj Plain (Existing 1)
               [ ''title'' \<mapsto> JObj Plain (Existing 2) [ ''text'' \<mapsto> JStr ''Population'' ],
                 ''series'' \<mapsto> JObj Plain (Existing 3) [ ''chart'' \<mapsto> JNum 1 ] ])
    \<and> opts ''title'' = Some (JObj Plain (Existing 2) [ ''text'' \<mapsto> JStr ''Population'' ])
    \<and> opts ''series'' = Some (JObj Plain (Existing 3) [ ''chart'' \<mapsto> JNum 1 ]))"
proof -
  let ?pick = "\<lambda>x y. if x = Undefined \<or> x = Null then y else x"
  let ?series = "JObj Plain (Existing 3) [ ''chart'' \<mapsto> JNum 1 ]"
  let ?user = "[ ''title'' \<mapsto> JObj Plain (Existing 2) [ ''text'' \<mapsto> JStr ''Population'' ],
            ''series'' \<mapsto> ?series ]"
  let ?seen = "\<lambda>layers. [ ''seen'' \<mapsto> get (hd (tl layers)) ''series'' ]"
  let ?second = "\<lambda>layers::properties list. hd (tl layers)"
  have series: "get ?user ''series'' = ?series"
    by (simp add: get_def)
  have same: "?user(''series'' \<mapsto> ?series) = ?user"
    by (simp add: fun_eq_iff)
  have has1: "hasRenderToArg (JObj Plain (Existing 1) ?user) = Some False"
    by (simp add: hasRenderToArg_def get_def)
  have arg1: "(if False then Undefined else JObj Plain (Existing 1) ?user)
      = JObj Plain (Existing 1) ?user"
    by simp
  from mapChart_series [OF has1 arg1, of ?seen ?pick Map.empty Undefined]
  obtain layer opts where
    call1: "mapChart ?seen ?pick Map.empty (JObj Plain (Existing 1) ?user) Undefined Undefined =
        Inr (NewChart None (JObj Plain Allocated opts) Undefined, JObj Plain (Existing 1) ?user)"
    and l1: "layer ''series'' = Some Null"
    and s1: "opts ''series'' = Some ?series"
    and o1: "\<And>key. key \<noteq> ''series'' \<Longrightarrow>
          opts key = ?seen [mapDefaults ?seen ?pick Map.empty, layer, forcedOptions] key"
    unfolding series same if_False by blast
  have seen: "opts ''seen'' = Some Null"
    using l1 by (simp add: o1 get_def)
  have has2: "hasRenderToArg (JStr ''container'') = Some True"
    by (simp add: hasRenderToArg_def)
  have arg2: "(if True then JObj Plain (Existing 1) ?user else JStr ''container'')
      = JObj Plain (Existing 1) ?user"
    by simp
  from mapChart_series [OF has2 arg2, of ?second ?pick Map.empty Undefined]
  obtain layer2 opts2 where
    call2: "mapChart ?second ?pick Map.empty (JStr ''container'') (JObj Plain (Existing 1) ?user)
        Undefined =
        Inr (NewChart (Some (JStr ''container'')) (JObj Plain Allocated opts2) Undefined,
             JObj Plain (Existing 1) ?user)"
    and l2: "\<And>key. key \<noteq> ''series'' \<Longrightarrow> layer2 key = ?user key"
    and s2: "opts2 ''series'' = Some ?series"
    and o2: "\<And>key. key \<noteq> ''series'' \<Longrightarrow>
          opts2 key = ?second [mapDefaults ?second ?pick Map.empty, layer2, forcedOptions] key"
    unfolding series same if_True by blast
  have title: "opts2 ''title'' = Some (JObj Plain (Existing 2) [ ''text'' \<mapsto> JStr ''Population'' ])"
    by (simp add: o2 l2)
  from call1 seen s1 call2 title s2 show ?thesis by blast
qed

section \<open>The items of a path string\<close>

lemma space_no_letter [simp]: "\<not> is_letter (CHR '' '')"
  by (simp add: is_letter_def less_eq_char_def)

lemma space_delimiter [simp]: "is_delimiter (CHR '' '')"
  by (simp add: is_delimiter_def)

lemma no_delimiter_no_space [simp]: "\<not> is_delimiter x \<Longrightarrow> (x = CHR '' '') = False"
  by auto

lemma split_on_no_delimiter:
  "t \<in> set (split_on d s) \<Longrightarrow> c \<in> set t \<Longrightarrow> \<not> d c"
proof (induction d s rule: split_on.induct)
  case (1 d s)
  show ?case
  proof (cases "dropWhile (\<lambda>c. \<not> d c) s")
    case Nil
    with "1.prems" show ?thesis
      by (auto simp: split_on.simps [of d s] dropWhile_eq_Nil_conv)
  next
    case (Cons sep rest)
    with "1.prems" have "t = takeWhile (\<lambda>c. \<not> d c) s \<or> t \<in> set (split_on d (dropWhile d rest))"
      by (simp add: split_on.simps [of d s])
    then show ?thesis
    proof
      assume "t = takeWhile (\<lambda>c. \<not> d c) s"
      with "1.prems" show ?thesis by (auto dest: set_takeWhileD)
    next
      assume "t \<in> set (split_on d (dropWhile d rest))"
      with "1.IH" [OF Cons] "1.prems" show ?thesis by blast
    qed
  qed
qed

lemma isolated_move_letters_apart: "isolated b (move_letters_apart s)"
proof (induction s arbitrary: b)
  case Nil
  then show ?case by (simp add: move_letters_apart_def)
next
  case (Cons c cs)
  have step: "move_letters_apart (c # cs) =
      (if is_letter c then [CHR '' '', c, CHR '' ''] else [c]) @ move_letters_apart cs"
    by (simp add: move_letters_apart_def)
  show ?case
    using Cons.IH by (simp add: step)
qed

lemma isolated_suffix: "isolated b (xs @ ys) \<Longrightarrow> \<exists>b'. isolated b' ys"
proof (induction xs arbitrary: b)
  case Nil
  then show ?case by auto
next
  case (Cons x xs)
  then show ?case by (auto split: if_splits)
qed

lemma isolated_prefix: "isolated b (xs @ ys) \<Longrightarrow> isolated b xs"
proof (induction xs arbitrary: b)
  case Nil
  then show ?case by simp
next
  case (Cons x xs)
  then show ?case by (cases xs) (auto split: if_splits)
qed

lemma isolated_trim: "isolated b s \<Longrightarrow> \<exists>b'. isolated b' (trim_end (trim_start s))"
proof -
  assume a: "isolated b s"
  have "s = takeWhile is_space s @ trim_start s"
    by (simp add: trim_start_def)
  with a obtain b' where b': "isolated b' (trim_start s)"
    by (metis isolated_suffix)
  have "trim_start s = trim_end (trim_start s) @ rev (takeWhile is_space (rev (trim_start s)))"
    unfolding trim_end_def
    by (metis rev_append rev_rev_ident takeWhile_dropWhile_id)
  with b' have "isolated b' (trim_end (trim_start s))"
    by (metis isolated_prefix)
  then show ?thesis ..
qed

lemma no_letter_after_other:
  "isolated False (pre @ rest) \<Longrightarrow> \<forall>x\<in>set pre. \<not> is_delimiter x \<Longrightarrow>
   c \<in> set pre \<Longrightarrow> is_letter c \<Longrightarrow> False"
proof (induction pre)
  case Nil
  then show ?case by simp
next
  case (Cons x pre)
  then show ?case by (auto split: if_splits)
qed

lemma letter_piece:
  assumes "isolated b (pre @ rest)" and "\<forall>x\<in>set pre. \<not> is_delimiter x"
    and "c \<in> set pre" and "is_letter c"
  shows "pre = [c]"
proof (cases pre)
  case Nil
  with assms show ?thesis by simp
next
  case (Cons x xs)
  show ?thesis
  proof (cases "is_letter x")
    case True
    with assms Cons have "xs = []"
      by (cases xs) auto
    with assms Cons True show ?thesis by auto
  next
    case False
    with assms Cons have "isolated False (xs @ rest)" and "c \<in> set xs"
      by auto
    with assms Cons have False
      using no_letter_after_other [of xs rest c] by auto
    then show ?thesis ..
  qed
qed

lemma split_on_letter_aux:
  "d = is_delimiter \<Longrightarrow> isolated b s \<Longrightarrow> t \<in> set (split_on d s) \<Longrightarrow> c \<in> set t \<Longrightarrow>
   is_letter c \<Longrightarrow> t = [c]"
proof (induction d s arbitrary: b rule: split_on.induct)
  case (1 d s)
  let ?nd = "\<lambda>c. \<not> d c"
  note d = \<open>d = is_delimiter\<close>
  show ?case
  proof (cases "dropWhile ?nd s")
    case Nil
    then have "split_on d s = [s]"
      by (subst split_on.simps) (simp only: list.case)
    with "1.prems"(3) have "t = s" by simp
    moreover from Nil have "\<forall>x\<in>set s. \<not> d x"
      by simp
    ultimately show ?thesis
      using "1.prems" letter_piece [of b s "[]" c] by simp
  next
    case (Cons sep rest)
    have s: "takeWhile ?nd s @ sep # rest = s"
      using Cons by (metis takeWhile_dropWhile_id)
    from Cons have "split_on d s = takeWhile ?nd s # split_on d (dropWhile d rest)"
      by (subst split_on.simps) (simp only: list.case)
    with "1.prems"(3) have
      "t = takeWhile ?nd s \<or> t \<in> set (split_on d (dropWhile d rest))"
      by simp
    then show ?thesis
    proof
      assume t: "t = takeWhile ?nd s"
      have nd: "\<forall>x\<in>set (takeWhile ?nd s). \<not> is_delimiter x"
        using d by (auto dest: set_takeWhileD)
      have iso: "isolated b (takeWhile ?nd s @ sep # rest)"
        using "1.prems"(2) by (simp only: s)
      have "c \<in> set (takeWhile ?nd s)"
        using "1.prems"(4) by (simp only: t)
      then have "takeWhile ?nd s = [c]"
        using iso nd "1.prems"(5) by (intro letter_piece)
      then show ?thesis by (simp only: t)
    next
      assume t: "t \<in> set (split_on d (dropWhile d rest))"
      have "(takeWhile ?nd s @ sep # takeWhile d rest) @ dropWhile d rest
            = takeWhile ?nd s @ sep # rest"
        by simp
      then have "(takeWhile ?nd s @ sep # takeWhile d rest) @ dropWhile d rest = s"
        by (simp only: s)
      then have "isolated b ((takeWhile ?nd s @ sep # takeWhile d rest) @ dropWhile d rest)"
        using "1.prems"(2) by (simp only:)
      then obtain b' where "isolated b' (dropWhile d rest)"
        by (blast dest: isolated_suffix)
      then show ?thesis
        using "1.IH" [OF Cons d _ t] "1.prems"(4,5) by blast
    qed
  qed
qed

lemma tokens_letter:
  assumes "t \<in> set (tokens str)" and "c \<in> set t" and "is_letter c"
  shows "t = [c]"
proof -
  obtain b where "isolated b (trim_end (trim_start (move_letters_apart str)))"
    using isolated_trim [OF isolated_move_letters_apart [of True str]] by blast
  from split_on_letter_aux [OF refl this _ assms(2,3)] assms(1) show ?thesis
    unfolding tokens_def by blast
qed

lemma letter_in_A_to_z: "is_letter c \<Longrightarrow> in_A_to_z c"
  by (auto simp: is_letter_def in_A_to_z_def less_eq_char_def)

lemmas item_simps =
  tokens_def move_letters_apart_def is_letter_def less_eq_char_def trim_start_def trim_end_def
  is_space_def split_on.simps is_delimiter_def classify_def in_A_to_z_def parseFloat_def Let_def
  is_digit_def digits_value_def

text \<open>
  C2, as amended. For every string, \<open>splitPath\<close> puts a space on both sides of each
  letter, trims the white space at both ends, and splits the rest at the runs of space,
  comma and semicolon: no item holds one of these three characters (other white space,
  a tab or a line feed, does not separate items). An item with no character from
  \<open>A\<close> to \<open>z\<close> is converted by \<open>parseFloat\<close>; an item that holds a letter is that
  one letter and is kept as a string. The items, in order, go to \<open>pathToSegments\<close>.
\<close>

theorem splitPath_items:
  "splitPath pathToSegments (PathString str) = pathToSegments (map classify (tokens str))
   \<and> tokens str = split_on is_delimiter (trim_end (trim_start (move_letters_apart str)))
   \<and> (\<forall>t \<in> set (tokens str).
         (\<forall>c \<in> set t. \<not> is_delimiter c)
         \<and> (\<not> list_ex in_A_to_z t \<longrightarrow> classify t = parseFloat t)
         \<and> (list_ex is_letter t \<longrightarrow> (\<exists>c. is_letter c \<and> t = [c]) \<and> classify t = Str t))"
proof -
  have call: "splitPath pathToSegments (PathString str) = pathToSegments (map classify (tokens str))"
    by (simp add: splitPath_def)
  have clean: "\<forall>c \<in> set t. \<not> is_delimiter c" if "t \<in> set (tokens str)" for t
    using that split_on_no_delimiter unfolding tokens_def by blast
  have number: "classify t = parseFloat t" if "\<not> list_ex in_A_to_z t" for t
    using that by (simp add: classify_def)
  have letter: "(\<exists>c. is_letter c \<and> t = [c]) \<and> classify t = Str t"
    if t: "t \<in> set (tokens str)" and l: "list_ex is_letter t" for t
  proof -
    from l obtain c where c: "c \<in> set t" "is_letter c"
      by (auto simp: list_ex_iff)
    with t have "t = [c]" by (rule tokens_letter)
    moreover from c have "list_ex in_A_to_z t"
      by (auto simp: list_ex_iff dest: letter_in_A_to_z)
    ultimately show ?thesis
      using c by (simp add: classify_def)
  qed
  show ?thesis
    using call clean number letter by (simp add: tokens_def)
qed

theorem splitPath_items_witness:
  "splitPath (\<lambda>arr. [arr]) (PathString ''M10 20,30;L-5.5 .5z'') =
      [[Str ''M'', Num 10, Num 20, Num 30, Str ''L'', Num (- 5.5), Num 0.5, Str ''z'']]
   \<and> classify ''20'' = parseFloat ''20''
   \<and> classify ''L'' = Str ''L''"
proof -
  let ?str = "''M10 20,30;L-5.5 .5z''"
  have toks: "tokens ?str = [''M'', ''10'', ''20'', ''30'', ''L'', ''-5.5'', ''.5'', ''z'']"
    by (simp add: item_simps)
  have items: "map classify (tokens ?str) =
      [Str ''M'', Num 10, Num 20, Num 30, Str ''L'', Num (- 5.5), Num 0.5, Str ''z'']"
    by (simp add: item_simps)
  have n: "\<not> list_ex in_A_to_z ''20''"
    by (simp add: in_A_to_z_def less_eq_char_def)
  have l: "list_ex is_letter ''L''"
    by (simp add: is_letter_def less_eq_char_def)
  from splitPath_items [of "\<lambda>arr. [arr]" ?str] have
    call: "splitPath (\<lambda>arr. [arr]) (PathString ?str) = [map classify (tokens ?str)]"
    and each: "\<forall>t \<in> set (tokens ?str).
         (\<not> list_ex in_A_to_z t \<longrightarrow> classify t = parseFloat t)
         \<and> (list_ex is_letter t \<longrightarrow> classify t = Str t)"
    by blast+
  from each toks n have "classify ''20'' = parseFloat ''20''" by simp
  moreover from each toks l have "classify ''L'' = Str ''L''" by simp
  ultimately show ?thesis
    using call items by simp
qed

text \<open>
  C2 as the specification states it, with the split "on whitespace/comma/semicolon
  delimiters", fails: a tab between two numbers is white space, but \<open>splitPath\<close>
  does not split there, and \<open>parseFloat\<close> reads the first number of the item only.
\<close>

theorem splitPath_tab_counterexample:
  "splitPath (\<lambda>arr. [arr]) (PathString [CHR ''1'', CHR 0x09, CHR ''2'']) = [[Num 1]]
   \<and> spec_items [CHR ''1'', CHR 0x09, CHR ''2''] = [Num 1, Num 2]
   \<and> splitPath (\<lambda>arr. [arr]) (PathString [CHR ''1'', CHR 0x09, CHR ''2''])
        \<noteq> [spec_items [CHR ''1'', CHR 0x09, CHR ''2'']]"
  by (simp add: splitPath_def spec_items_def spec_delimiter_def item_simps)

section \<open>The round trip of a path string\<close>

lemma concat_spec_pathToSegments: "concat (spec_pathToSegments xs) = xs"
  by (induction xs) (auto split: list.splits)


(* parseFloat on operand text *)

lemma digit_not_space: "is_digit c \<Longrightarrow> \<not> is_space c"
  by (auto simp: is_digit_def is_space_def less_eq_char_def)

lemma takeWhile_digits: "list_all is_digit ds \<Longrightarrow> rest = [] \<or> \<not> is_digit (hd rest) \<Longrightarrow> takeWhile is_digit (ds @ rest) = ds"
  by (cases rest) (auto simp: list_all_iff takeWhile_append2 intro: takeWhile_eq_all_conv[THEN iffD2])

lemma dropWhile_digits: "list_all is_digit ds \<Longrightarrow> rest = [] \<or> \<not> is_digit (hd rest) \<Longrightarrow> dropWhile is_digit (ds @ rest) = rest"
  by (cases rest) (auto simp: list_all_iff dropWhile_append2)

lemma point_no_digit [simp]: "\<not> is_digit (CHR ''.'')" "\<not> is_digit (CHR ''+'')" "\<not> is_digit (CHR ''-'')"
  by (simp_all add: is_digit_def less_eq_char_def)

lemma sign_no_space [simp]: "\<not> is_space (CHR ''.'')" "\<not> is_space (CHR ''+'')" "\<not> is_space (CHR ''-'')"
  by (simp_all add: is_space_def)

lemma digit_no_sign: "is_digit c \<Longrightarrow> c \<noteq> CHR ''-'' \<and> c \<noteq> CHR ''+'' \<and> c \<noteq> CHR ''.''"
  by (auto simp: is_digit_def less_eq_char_def)

lemma dropWhile_keep: "s \<noteq> [] \<Longrightarrow> \<not> P (hd s) \<Longrightarrow> dropWhile P s = s"
  by (cases s) auto

lemma unsigned_parts:
  assumes "list_all is_digit ds" and "list_all is_digit fs"
  shows "takeWhile is_digit (ds @ fraction_text fs) = ds"
    and "dropWhile is_digit (ds @ fraction_text fs) = fraction_text fs"
    and "(if fraction_text fs \<noteq> [] \<and> hd (fraction_text fs) = CHR ''.''
          then takeWhile is_digit (tl (fraction_text fs)) else []) = fs"
  using assms takeWhile_digits [of ds "fraction_text fs"] dropWhile_digits [of ds "fraction_text fs"]
    takeWhile_digits [of fs "[]"]
  by (auto simp: fraction_text_def)

lemma unsigned_start:
  assumes "list_all is_digit ds" and "ds \<noteq> [] \<or> fs \<noteq> []"
  shows "ds @ fraction_text fs \<noteq> []"
    and "\<not> is_space (hd (ds @ fraction_text fs))"
    and "hd (ds @ fraction_text fs) \<noteq> CHR ''-''"
    and "hd (ds @ fraction_text fs) \<noteq> CHR ''+''"
  using assms
  by (cases ds; auto simp: fraction_text_def digit_not_space digit_no_sign)+

lemma parseFloat_operand:
  assumes "wf_lexeme (Operand sg ds fs)"
  shows "parseFloat (lexeme_text (Operand sg ds fs)) = lexeme_item (Operand sg ds fs)"
proof -
  from assms have ds: "list_all is_digit ds" and fs: "list_all is_digit fs"
    and ne: "ds \<noteq> [] \<or> fs \<noteq> []"
    by auto
  let ?u = "ds @ fraction_text fs"
  note parts = unsigned_parts [OF ds fs] and start = unsigned_start [OF ds ne]
  have tx: "lexeme_text (Operand sg ds fs) = sign_text sg @ ?u"
    by (simp add: fraction_text_def)
  let ?t = "sign_text sg @ ?u"
  have t: "dropWhile is_space ?t = ?t"
    using start by (cases sg) (simp_all add: dropWhile_keep)
  have negative: "(?t \<noteq> [] \<and> hd ?t = CHR ''-'') = (sg = Minus)"
    using start by (cases sg) simp_all
  have u: "(if ?t \<noteq> [] \<and> (hd ?t = CHR ''-'' \<or> hd ?t = CHR ''+'') then tl ?t else ?t) = ?u"
    using start by (cases sg) simp_all
  have "parseFloat ?t =
      (if ds = [] \<and> fs = [] then NaN
       else Num (if sg = Minus
                 then - (real (digits_value ds) + real (digits_value fs) / 10 ^ length fs)
                 else real (digits_value ds) + real (digits_value fs) / 10 ^ length fs))"
    unfolding parseFloat_def Let_def t negative u parts ..
  then show ?thesis
    unfolding tx using ne by simp
qed


lemma delimiter_no_letter: "is_delimiter c \<Longrightarrow> \<not> is_letter c"
  by (auto simp: is_delimiter_def is_letter_def less_eq_char_def)

lemma letter_token_char: "is_letter c \<Longrightarrow> \<not> is_delimiter c \<and> \<not> is_space c"
  by (auto simp: is_delimiter_def is_letter_def is_space_def less_eq_char_def)

lemma digit_token_char: "is_digit c \<Longrightarrow> \<not> is_delimiter c \<and> \<not> is_space c \<and> \<not> in_A_to_z c"
  by (auto simp: is_delimiter_def is_digit_def is_space_def in_A_to_z_def less_eq_char_def)

lemma sign_token_char:
  "c \<in> set (sign_text sg) \<or> c = CHR ''.'' \<Longrightarrow> \<not> is_delimiter c \<and> \<not> is_space c \<and> \<not> in_A_to_z c"
  by (cases sg) (auto simp: is_delimiter_def is_space_def in_A_to_z_def less_eq_char_def)

lemma operand_chars:
  assumes "wf_lexeme (Operand sg ds fs)" and "c \<in> set (lexeme_text (Operand sg ds fs))"
  shows "\<not> is_delimiter c \<and> \<not> is_space c \<and> \<not> in_A_to_z c"
proof -
  from assms have "c \<in> set (sign_text sg) \<or> c = CHR ''.'' \<or> is_digit c"
    by (auto simp: list_all_iff split: if_splits)
  then show ?thesis
    using sign_token_char [of c sg] digit_token_char [of c] by blast
qed

lemma lexeme_token: "wf_lexeme lx \<Longrightarrow> token_text (lexeme_text lx)"
proof (cases lx)
  case (Command c)
  assume "wf_lexeme lx"
  with Command show ?thesis
    by (simp add: token_text_def letter_token_char)
next
  case (Operand sg ds fs)
  assume wf: "wf_lexeme lx"
  with Operand have "lexeme_text lx \<noteq> []" by auto
  with wf Operand operand_chars show ?thesis
    unfolding token_text_def by blast
qed

lemma move_letters_apart_append:
  "move_letters_apart (a @ b) = move_letters_apart a @ move_letters_apart b"
  by (simp add: move_letters_apart_def)

lemma move_letters_apart_same:
  "\<forall>c\<in>set s. \<not> is_letter c \<Longrightarrow> move_letters_apart s = s"
  by (induction s) (simp_all add: move_letters_apart_def)

lemma move_letters_apart_lexeme:
  assumes "wf_lexeme lx"
  shows "move_letters_apart (lexeme_text lx) = padding lx @ lexeme_text lx @ padding lx"
proof (cases lx)
  case (Command c)
  with assms show ?thesis by (simp add: move_letters_apart_def)
next
  case (Operand sg ds fs)
  with assms have "\<forall>c\<in>set (lexeme_text lx). \<not> is_letter c"
    using operand_chars letter_in_A_to_z by blast
  with Operand show ?thesis
    by (simp add: move_letters_apart_same)
qed

lemma move_letters_apart_render:
  assumes "wf_layout is_delimiter prev layout" and "list_all is_delimiter trailing"
  shows "move_letters_apart (render layout trailing) = spread_layout layout trailing"
  using assms
proof (induction layout arbitrary: prev)
  case Nil
  then show ?case
    by (simp add: render_def move_letters_apart_same list_all_iff delimiter_no_letter)
next
  case (Cons entry layout)
  obtain sep lx where entry: "entry = (sep, lx)" by (cases entry)
  from Cons.prems entry have sep: "\<forall>c\<in>set sep. \<not> is_letter c" and lx: "wf_lexeme lx"
    and rest: "wf_layout is_delimiter (is_operand lx) layout"
    by (auto simp: list_all_iff delimiter_no_letter)
  have "render (entry # layout) trailing = sep @ lexeme_text lx @ render layout trailing"
    by (simp add: render_def entry)
  then show ?case
    using Cons.IH [OF rest Cons.prems(2)] sep lx
    by (simp add: entry move_letters_apart_append move_letters_apart_same
        move_letters_apart_lexeme)
qed

lemma trim_start_skip:
  "list_all is_space L \<Longrightarrow> t \<noteq> [] \<Longrightarrow> \<not> is_space (hd t) \<Longrightarrow> trim_start (L @ t @ s) = t @ s"
  by (cases t) (simp_all add: trim_start_def list_all_iff)

lemma trim_end_inner:
  assumes "\<exists>c\<in>set b. \<not> is_space c"
  shows "trim_end (a @ b) = a @ trim_end b"
proof -
  from assms obtain c where "c \<in> set (rev b)" and "\<not> is_space c" by auto
  then have "dropWhile is_space (rev b @ rev a) = dropWhile is_space (rev b) @ rev a"
    by (rule dropWhile_append1)
  then show ?thesis by (simp add: trim_end_def)
qed

lemma trim_end_spaces: "list_all is_space R \<Longrightarrow> trim_end R = []"
  by (simp add: trim_end_def list_all_iff)

lemma trim_end_token:
  assumes "token_text t" and "list_all is_space R"
  shows "trim_end (t @ R) = t"
proof -
  from assms(1) have last: "t \<noteq> []" "\<not> is_space (last t)"
    by (auto simp: token_text_def)
  then have "dropWhile is_space (rev t) = rev t"
    by (intro dropWhile_keep) (simp_all add: hd_rev)
  moreover have "dropWhile is_space (rev R @ rev t) = dropWhile is_space (rev t)"
    using assms(2) by (intro dropWhile_append2) (simp add: list_all_iff)
  ultimately show ?thesis by (simp add: trim_end_def)
qed

lemma trim_end_keeps_token:
  assumes "token_text t"
  shows "\<exists>Z'. trim_end (t @ Z) = t @ Z'"
proof (cases "\<exists>c\<in>set Z. \<not> is_space c")
  case True
  then show ?thesis by (auto simp: trim_end_inner)
next
  case False
  then have "list_all is_space Z" by (simp add: list_all_iff)
  with assms have "trim_end (t @ Z) = t @ []" by (simp add: trim_end_token)
  then show ?thesis by blast
qed

lemma split_on_single:
  assumes "\<forall>c\<in>set t. \<not> d c"
  shows "split_on d t = [t]"
proof -
  from assms have "dropWhile (\<lambda>c. \<not> d c) t = []" by simp
  then show ?thesis
    by (subst split_on.simps) (simp only: list.case)
qed

lemma split_on_step:
  assumes t: "\<forall>c\<in>set t. \<not> d c" and g: "g \<noteq> []" "\<forall>c\<in>set g. d c"
    and s: "s \<noteq> []" "\<not> d (hd s)"
  shows "split_on d (t @ g @ s) = t # split_on d s"
proof -
  obtain x g' where gx: "g = x # g'" using g(1) by (cases g) auto
  with g(2) have x: "d x" and g': "\<forall>c\<in>set g'. d c" by auto
  have drop: "dropWhile (\<lambda>c. \<not> d c) (t @ g @ s) = x # (g' @ s)"
    using t x by (simp add: gx)
  have take: "takeWhile (\<lambda>c. \<not> d c) (t @ g @ s) = t"
    using t x by (simp add: gx)
  have rest: "dropWhile d (g' @ s) = s"
    using g' s by (simp add: dropWhile_keep)
  show ?thesis
    by (subst split_on.simps) (simp only: drop take rest list.case)
qed


lemma tokens_after:
  assumes "token_text t" and "wf_layout is_delimiter prev rest"
    and "list_all is_space trailing" and "list_all is_delimiter trailing"
    and "list_all is_space p" and "list_all is_delimiter p" and "\<not> prev \<longrightarrow> p \<noteq> []"
  shows "split_on is_delimiter (trim_end (t @ p @ spread_layout rest trailing))
         = t # map (lexeme_text \<circ> snd) rest"
  using assms
proof (induction rest arbitrary: t p prev)
  case Nil
  then have "trim_end (t @ p @ spread_layout [] trailing) = t"
    by (simp add: trim_end_token)
  moreover from Nil.prems(1) have "\<forall>c\<in>set t. \<not> is_delimiter c"
    by (simp add: token_text_def)
  ultimately show ?case
    by (simp add: split_on_single)
next
  case (Cons entry rest)
  obtain sep lx where entry: "entry = (sep, lx)" by (cases entry)
  let ?g = "p @ sep @ padding lx"
  let ?t' = "lexeme_text lx"
  let ?Z = "padding lx @ spread_layout rest trailing"
  from Cons.prems(2) entry have sep: "list_all is_delimiter sep" and lx: "wf_lexeme lx"
    and gap: "prev \<and> is_operand lx \<longrightarrow> sep \<noteq> []"
    and rest: "wf_layout is_delimiter (is_operand lx) rest"
    by (auto split: if_splits)
  from lx have t': "token_text ?t'" by (rule lexeme_token)
  have pad: "list_all is_space (padding lx)" "list_all is_delimiter (padding lx)"
    "\<not> is_operand lx \<longrightarrow> padding lx \<noteq> []"
    by (cases lx; simp add: is_space_def)+
  have IH: "split_on is_delimiter (trim_end (?t' @ ?Z)) = ?t' # map (lexeme_text \<circ> snd) rest"
    using Cons.IH [OF t' rest Cons.prems(3,4) pad] by simp
  obtain Z' where Z': "trim_end (?t' @ ?Z) = ?t' @ Z'"
    using trim_end_keeps_token [OF t'] by blast
  have g_ne: "?g \<noteq> []"
    using gap pad(3) Cons.prems(7) by (cases prev; cases "is_operand lx"; simp)
  have g_d: "\<forall>c\<in>set ?g. is_delimiter c"
    using Cons.prems(6) sep pad(2) by (auto simp: list_all_iff)
  have "\<exists>c\<in>set (?t' @ ?Z). \<not> is_space c"
    using t' by (cases ?t') (auto simp: token_text_def)
  then have "trim_end ((t @ ?g) @ ?t' @ ?Z) = (t @ ?g) @ trim_end (?t' @ ?Z)"
    by (rule trim_end_inner)
  then have "trim_end (t @ p @ spread_layout (entry # rest) trailing) = t @ ?g @ (?t' @ Z')"
    by (simp add: entry Z')
  moreover have "split_on is_delimiter (t @ ?g @ (?t' @ Z')) = t # split_on is_delimiter (?t' @ Z')"
  proof (rule split_on_step)
    show "\<forall>c\<in>set t. \<not> is_delimiter c"
      using Cons.prems(1) by (simp add: token_text_def)
    show "?g \<noteq> []" by (rule g_ne)
    show "\<forall>c\<in>set ?g. is_delimiter c" by (rule g_d)
    show "?t' @ Z' \<noteq> []" using t' by (simp add: token_text_def)
    show "\<not> is_delimiter (hd (?t' @ Z'))"
      using t' by (cases ?t') (auto simp: token_text_def)
  qed
  ultimately show ?case
    using IH Z' by (simp add: entry)
qed

lemma wf_layout_lexemes:
  "wf_layout d prev layout \<Longrightarrow> entry \<in> set layout \<Longrightarrow> wf_lexeme (snd entry)"
  by (induction layout arbitrary: prev) auto

lemma tokens_render:
  assumes "well_formed is_delimiter layout trailing"
  shows "tokens (render layout trailing) = map (lexeme_text \<circ> snd) layout"
proof -
  from assms obtain sep lx rest where layout: "layout = (sep, lx) # rest"
    by (cases layout) (auto simp: well_formed_def)
  from assms layout have first: "list_all is_space sep" and trail: "list_all is_space trailing"
    "list_all is_delimiter trailing" and wf: "wf_layout is_delimiter False layout"
    by (auto simp: well_formed_def)
  from wf layout have sep: "list_all is_delimiter sep" and lx: "wf_lexeme lx"
    and rest: "wf_layout is_delimiter (is_operand lx) rest"
    by auto
  from lx have t: "token_text (lexeme_text lx)" by (rule lexeme_token)
  have pad: "list_all is_space (padding lx)" "list_all is_delimiter (padding lx)"
    "\<not> is_operand lx \<longrightarrow> padding lx \<noteq> []"
    by (cases lx; simp add: is_space_def)+
  have "move_letters_apart (render layout trailing) =
      (sep @ padding lx) @ lexeme_text lx @ (padding lx @ spread_layout rest trailing)"
    using move_letters_apart_render [OF wf trail(2)] by (simp add: layout)
  moreover have "trim_start ((sep @ padding lx) @ lexeme_text lx
        @ (padding lx @ spread_layout rest trailing))
      = lexeme_text lx @ (padding lx @ spread_layout rest trailing)"
    using first pad(1) t by (intro trim_start_skip) (auto simp: token_text_def list_all_iff hd_in_set)
  ultimately have "tokens (render layout trailing) =
      split_on is_delimiter (trim_end (lexeme_text lx @ padding lx @ spread_layout rest trailing))"
    by (simp add: tokens_def)
  then show ?thesis
    using tokens_after [OF t rest trail pad] by (simp add: layout)
qed

lemma classify_lexeme: "wf_lexeme lx \<Longrightarrow> classify (lexeme_text lx) = lexeme_item lx"
proof (cases lx)
  case (Command c)
  assume "wf_lexeme lx"
  with Command show ?thesis
    by (simp add: classify_def letter_in_A_to_z)
next
  case (Operand sg ds fs)
  assume wf: "wf_lexeme lx"
  with Operand have "\<not> list_ex in_A_to_z (lexeme_text lx)"
    using operand_chars unfolding list_ex_iff by blast
  with wf Operand show ?thesis
    using parseFloat_operand [of sg ds fs] by (simp add: classify_def)
qed

lemma items_render:
  assumes "well_formed is_delimiter layout trailing"
  shows "map classify (tokens (render layout trailing)) = map (lexeme_item \<circ> snd) layout"
proof -
  from assms have "wf_layout is_delimiter False layout"
    by (simp add: well_formed_def)
  then have "\<forall>entry\<in>set layout. classify (lexeme_text (snd entry)) = lexeme_item (snd entry)"
    using classify_lexeme wf_layout_lexemes by blast
  then show ?thesis
    by (simp add: tokens_render [OF assms])
qed


text \<open>
  C5, as amended. For every well-formed path string whose separators are runs of
  space, comma and semicolon, \<open>splitPath\<close> answers segments that hold, in order,
  exactly the commands and coordinates of the string; and every well-formed string
  that re-joins these segments is split into the same sequence of commands and
  coordinates again.
\<close>

theorem splitPath_round_trip:
  assumes "well_formed is_delimiter layout trailing"
    and "well_formed is_delimiter layout' trailing'"
    and "map (lexeme_item \<circ> snd) layout' =
           concat (splitPath spec_pathToSegments (PathString (render layout trailing)))"
  shows "concat (splitPath spec_pathToSegments (PathString (render layout trailing)))
           = map (lexeme_item \<circ> snd) layout
       \<and> concat (splitPath spec_pathToSegments (PathString (render layout' trailing')))
           = map (lexeme_item \<circ> snd) layout"
proof -
  have split: "concat (splitPath spec_pathToSegments (PathString (render l t))) = map (lexeme_item \<circ> snd) l"
    if "well_formed is_delimiter l t" for l t
    using items_render [OF that] by (simp add: splitPath_def concat_spec_pathToSegments)
  from split [OF assms(1)] split [OF assms(2)] assms(3) show ?thesis by simp
qed

theorem splitPath_round_trip_witness:
  "concat (splitPath spec_pathToSegments (PathString ''M10,-.5 L3 ;4z''))
      = [Str ''M'', Num 10, Num (- 0.5), Str ''L'', Num 3, Num 4, Str ''z'']
   \<and> concat (splitPath spec_pathToSegments (PathString ''M 10 -0.5 L 3 4 z''))
      = [Str ''M'', Num 10, Num (- 0.5), Str ''L'', Num 3, Num 4, Str ''z'']"
proof -
  let ?layout = "[ ([], Command CHR ''M''), ([], Operand NoSign ''10'' []),
      ('','', Operand Minus [] ''5''), ('' '', Command CHR ''L''), ([], Operand NoSign ''3'' []),
      ('' ;'', Operand NoSign ''4'' []), ([], Command CHR ''z'') ]"
  let ?layout' = "[ ([], Command CHR ''M''), ('' '', Operand NoSign ''10'' []),
      ('' '', Operand Minus ''0'' ''5''), ('' '', Command CHR ''L''), ('' '', Operand NoSign ''3'' []),
      ('' '', Operand NoSign ''4'' []), ('' '', Command CHR ''z'') ]"
  have wf: "well_formed is_delimiter ?layout []"
    by (simp add: well_formed_def is_delimiter_def is_letter_def is_digit_def less_eq_char_def)
  have wf': "well_formed is_delimiter ?layout' []"
    by (simp add: well_formed_def is_delimiter_def is_letter_def is_digit_def less_eq_char_def)
  have r: "render ?layout [] = ''M10,-.5 L3 ;4z''"
    by (simp add: render_def)
  have r': "render ?layout' [] = ''M 10 -0.5 L 3 4 z''"
    by (simp add: render_def)
  have items: "map (lexeme_item \<circ> snd) ?layout
      = [Str ''M'', Num 10, Num (- 0.5), Str ''L'', Num 3, Num 4, Str ''z'']"
    by (simp add: digits_value_def)
  have items': "map (lexeme_item \<circ> snd) ?layout'
      = [Str ''M'', Num 10, Num (- 0.5), Str ''L'', Num 3, Num 4, Str ''z'']"
    by (simp add: digits_value_def)
  have segs: "concat (splitPath spec_pathToSegments (PathString (render ?layout [])))
      = [Str ''M'', Num 10, Num (- 0.5), Str ''L'', Num 3, Num 4, Str ''z'']"
    unfolding r by (simp add: splitPath_def concat_spec_pathToSegments item_simps)
  have same: "map (lexeme_item \<circ> snd) ?layout'
      = concat (splitPath spec_pathToSegments (PathString (render ?layout [])))"
    unfolding items' segs ..
  from splitPath_round_trip [OF wf wf' same] show ?thesis
    unfolding r r' items .
qed

text \<open>
  C5 as the specification states it fails for the delimiters the specification names,
  "whitespace/comma/semicolon": the string \<open>M\<close>, tab, \<open>1\<close>, tab, \<open>2\<close> is well formed
  for them and stands for \<open>M 1 2\<close>, but \<open>splitPath\<close> answers the one segment
  \<open>M 1\<close>. The coordinate 2 is lost in the split, and the re-joined string \<open>M 1\<close>
  stands for \<open>M 1\<close> under either reading.
\<close>

theorem splitPath_round_trip_counterexample:
  "well_formed spec_delimiter
      [ ([], Command CHR ''M''), ([CHR 0x09], Operand NoSign ''1'' []),
        ([CHR 0x09], Operand NoSign ''2'' []) ] []
   \<and> render [ ([], Command CHR ''M''), ([CHR 0x09], Operand NoSign ''1'' []),
        ([CHR 0x09], Operand NoSign ''2'' []) ] []
      = [CHR ''M'', CHR 0x09, CHR ''1'', CHR 0x09, CHR ''2'']
   \<and> map (lexeme_item \<circ> snd) [ ([], Command CHR ''M''), ([CHR 0x09], Operand NoSign ''1'' []),
        ([CHR 0x09], Operand NoSign ''2'' []) ]
      = [Str ''M'', Num 1, Num 2]
   \<and> splitPath spec_pathToSegments (PathString [CHR ''M'', CHR 0x09, CHR ''1'', CHR 0x09, CHR ''2''])
      = [[Str ''M'', Num 1]]
   \<and> concat (splitPath spec_pathToSegments (PathString ''M 1'')) = [Str ''M'', Num 1]
   \<and> spec_items ''M 1'' = [Str ''M'', Num 1]"
  by (simp add: well_formed_def render_def spec_delimiter_def spec_items_def splitPath_def
      item_simps digits_value_def)


section \<open>The registry of map data\<close>





end
